theory Spec2Isabelle
  imports
    Main
    "HOL-Library.Word"
    "HOL-Library.Char_ord"
    "HOL-Library.List_Lexorder"
    "HOL-Library.AList"
begin

unbundle bit_operations_syntax

section \<open>Incremental MD5 manifest scanner (main.go)\<close>

text \<open>
  A shallow embedding of \<^verbatim>\<open>main.go\<close>. Go strings are byte strings: \<open>string\<close> is a list
  of \<open>char\<close>, one \<open>char\<close> per byte, ordered by byte value (\<open>Char_ord\<close>) and
  lexicographically (\<open>List_Lexorder\<close>), which is the order of Go's \<^verbatim>\<open>sort.Strings\<close>.

  A \<^verbatim>\<open>map[string]string\<close> is an association list whose keys are distinct; every map of
  the program is built from the empty map by stores, which keeps them so
  (\<open>distinct_update\<close>). An instant (\<^verbatim>\<open>time.Time\<close>) is an integer number of nanoseconds
  counted from Go's zero instant.
\<close>

type_synonym checksums = "(string \<times> string) list"

type_synonym instant = int

subsection \<open>Library functions the program calls\<close>

definition MD5TimestampFile :: string where
  "MD5TimestampFile = ''.md5sum-timestamp''"

text \<open>\<^verbatim>\<open>strings.HasSuffix\<close>: \<^verbatim>\<open>len(s) >= len(suffix) && s[len(s)-len(suffix):] == suffix\<close>.\<close>

definition HasSuffix :: "string \<Rightarrow> string \<Rightarrow> bool" where
  "HasSuffix s suffix =
     (length suffix \<le> length s \<and> drop (length s - length suffix) s = suffix)"

text \<open>\<^verbatim>\<open>strings.HasPrefix\<close>.\<close>

definition HasPrefix :: "string \<Rightarrow> string \<Rightarrow> bool" where
  "HasPrefix s pre = (length pre \<le> length s \<and> take (length pre) s = pre)"

text \<open>\<^verbatim>\<open>t.After(u)\<close>: \<open>t\<close> is strictly later than \<open>u\<close>.\<close>

definition After :: "instant \<Rightarrow> instant \<Rightarrow> bool" where
  "After t u = (u < t)"

text \<open>The zero \<^verbatim>\<open>time.Time{}\<close>.\<close>

definition zeroTime :: instant where
  "zeroTime = 0"

text \<open>
  \<^verbatim>\<open>m[k]\<close> on a Go map: the stored value, or the zero value \<^verbatim>\<open>""\<close> when the key is
  absent.
\<close>

definition index :: "checksums \<Rightarrow> string \<Rightarrow> string" where
  "index m k = (case map_of m k of None \<Rightarrow> [] | Some v \<Rightarrow> v)"

text \<open>
  \<^verbatim>\<open>hex.EncodeToString\<close>: two lowercase hexadecimal digits per byte, the high nibble
  first.
\<close>

definition hextable :: string where
  "hextable = ''0123456789abcdef''"

definition EncodeToString :: "8 word list \<Rightarrow> string" where
  "EncodeToString src =
     concat (map (\<lambda>v. [hextable ! unat (drop_bit 4 v), hextable ! unat (v AND 0x0f)]) src)"

text \<open>
  The MD5 digest \<^verbatim>\<open>hash.Sum(nil)\<close> is a slice of exactly 16 bytes: a 128-bit word, its
  most significant byte first.
\<close>

type_synonym digest = "128 word"

definition digestBytes :: "digest \<Rightarrow> 8 word list" where
  "digestBytes d = map (\<lambda>i. ucast (drop_bit (8 * i) d)) (rev [0..<16])"

subsubsection \<open>\<^verbatim>\<open>strings.TrimSpace\<close>\<close>

text \<open>
  \<^verbatim>\<open>strings.TrimSpace\<close> removes every leading and every trailing white space rune, as
  \<^verbatim>\<open>unicode.IsSpace\<close> defines them: six ASCII bytes, and the UTF-8 encodings of U+0085,
  U+00A0, U+1680, U+2000 to U+200A, U+2028, U+2029, U+202F, U+205F and U+3000.
\<close>

definition asciiSpace :: "char \<Rightarrow> bool" where
  "asciiSpace c = (c \<in> set [CHR 0x09, CHR 0x0A, CHR 0x0B, CHR 0x0C, CHR 0x0D, CHR 0x20])"

definition spaceRunes :: "string list" where
  "spaceRunes =
     [[CHR 0xC2, CHR 0x85], [CHR 0xC2, CHR 0xA0], [CHR 0xE1, CHR 0x9A, CHR 0x80],
      [CHR 0xE2, CHR 0x80, CHR 0x80], [CHR 0xE2, CHR 0x80, CHR 0x81],
      [CHR 0xE2, CHR 0x80, CHR 0x82], [CHR 0xE2, CHR 0x80, CHR 0x83],
      [CHR 0xE2, CHR 0x80, CHR 0x84], [CHR 0xE2, CHR 0x80, CHR 0x85],
      [CHR 0xE2, CHR 0x80, CHR 0x86], [CHR 0xE2, CHR 0x80, CHR 0x87],
      [CHR 0xE2, CHR 0x80, CHR 0x88], [CHR 0xE2, CHR 0x80, CHR 0x89],
      [CHR 0xE2, CHR 0x80, CHR 0x8A], [CHR 0xE2, CHR 0x80, CHR 0xA8],
      [CHR 0xE2, CHR 0x80, CHR 0xA9], [CHR 0xE2, CHR 0x80, CHR 0xAF],
      [CHR 0xE2, CHR 0x81, CHR 0x9F], [CHR 0xE3, CHR 0x80, CHR 0x80]]"

text \<open>The width in bytes of the white space rune \<open>s\<close> starts with; 0 when there is none.\<close>

definition leadingSpace :: "string \<Rightarrow> nat" where
  "leadingSpace s =
     (case s of
        [] \<Rightarrow> 0
      | c # _ \<Rightarrow>
          if asciiSpace c then 1
          else (case find (HasPrefix s) spaceRunes of None \<Rightarrow> 0 | Some r \<Rightarrow> length r))"

text \<open>The width in bytes of the white space rune \<open>s\<close> ends with; 0 when there is none.\<close>

definition trailingSpace :: "string \<Rightarrow> nat" where
  "trailingSpace s =
     (if s = [] then 0
      else if asciiSpace (last s) then 1
      else (case find (HasSuffix s) spaceRunes of None \<Rightarrow> 0 | Some r \<Rightarrow> length r))"

function TrimLeft :: "string \<Rightarrow> string" where
  "TrimLeft s = (if leadingSpace s = 0 then s else TrimLeft (drop (leadingSpace s) s))"
  by pat_completeness auto
termination
  by (relation "measure length") (auto simp: leadingSpace_def split: list.splits)

function TrimRight :: "string \<Rightarrow> string" where
  "TrimRight s =
     (if trailingSpace s = 0 then s else TrimRight (take (length s - trailingSpace s) s))"
  by pat_completeness auto
termination
  by (relation "measure length") (auto simp: trailingSpace_def split: if_splits)

declare TrimLeft.simps [simp del] TrimRight.simps [simp del]

definition TrimSpace :: "string \<Rightarrow> string" where
  "TrimSpace s = TrimRight (TrimLeft s)"

subsubsection \<open>\<^verbatim>\<open>strings.SplitN(s, sep, 2)\<close>\<close>

text \<open>
  The text before and after the first occurrence of \<open>sep\<close> in \<open>s\<close>
  (\<^verbatim>\<open>strings.Index\<close>), when there is one.
\<close>

fun cut :: "string \<Rightarrow> string \<Rightarrow> (string \<times> string) option" where
  "cut sep [] = (if sep = [] then Some ([], []) else None)"
| "cut sep (c # cs) =
     (if HasPrefix (c # cs) sep then Some ([], drop (length sep) (c # cs))
      else (case cut sep cs of None \<Rightarrow> None | Some (a, b) \<Rightarrow> Some (c # a, b)))"

text \<open>
  \<^verbatim>\<open>strings.SplitN(s, sep, 2)\<close> for a non-empty separator: the two parts around the first
  occurrence of \<open>sep\<close>, or \<open>s\<close> alone when \<open>sep\<close> does not occur.
\<close>

definition SplitN2 :: "string \<Rightarrow> string \<Rightarrow> string list" where
  "SplitN2 s sep = (case cut sep s of None \<Rightarrow> [s] | Some (a, b) \<Rightarrow> [a, b])"

subsubsection \<open>\<^verbatim>\<open>bufio.Scanner\<close> with the default line splitter\<close>

text \<open>
  \<^verbatim>\<open>bufio.ScanLines\<close> cuts the input at each newline byte; the text after the last
  newline is a line too unless it is empty. \<open>cur\<close> is the line read so far.
\<close>

fun rawLines :: "string \<Rightarrow> string \<Rightarrow> string list" where
  "rawLines cur [] = (if cur = [] then [] else [cur])"
| "rawLines cur (c # cs) =
     (if c = CHR 0x0A then cur # rawLines [] cs else rawLines (cur @ [c]) cs)"

text \<open>\<^verbatim>\<open>dropCR\<close>: a line loses one trailing carriage return.\<close>

definition dropCR :: "string \<Rightarrow> string" where
  "dropCR line = (if line \<noteq> [] \<and> last line = CHR 0x0D then butlast line else line)"

text \<open>
  The scanner's buffer holds at most \<^verbatim>\<open>bufio.MaxScanTokenSize\<close> bytes: at a line that
  does not fit with its newline, \<^verbatim>\<open>Scan\<close> returns false and the reading loop ends there.
\<close>

definition MaxScanTokenSize :: int where
  "MaxScanTokenSize = 64 * 1024"

definition ScanLines :: "string \<Rightarrow> string list" where
  "ScanLines data =
     map dropCR
       (takeWhile (\<lambda>line. int (length line) < MaxScanTokenSize) (rawLines [] data))"

subsection \<open>The environment of one run\<close>

text \<open>
  What one run reads from outside the program. \<open>manifest\<close> is the content of the
  output file (\<open>None\<close> when \<^verbatim>\<open>os.Open\<close> fails on it), \<open>marker\<close> the modification time of
  the marker file (\<open>None\<close> when \<^verbatim>\<open>os.Stat\<close> fails on it).
\<close>

record world =
  manifest :: "string option"
  marker :: "instant option"

text \<open>
  One non-directory entry that \<^verbatim>\<open>filepath.Walk\<close> hands to the callback without an
  error: the result of \<^verbatim>\<open>filepath.Rel\<close> (\<open>None\<close> when it fails), \<^verbatim>\<open>info.ModTime()\<close>, and the
  digest \<^verbatim>\<open>fileMD5\<close> computes when it opens and reads the file (\<open>None\<close> when opening or
  reading fails).
\<close>

record entry =
  relPath :: "string option"
  modTime :: instant
  md5sum :: "digest option"

datatype visit = WalkError | Directory | File entry

text \<open>
  The answers of the operating system during one run: whether the three checks at
  the start of \<^verbatim>\<open>main\<close> pass, the sequence of callbacks of \<^verbatim>\<open>filepath.Walk\<close>, the value of
  \<^verbatim>\<open>time.Now()\<close> when the marker is updated, and whether writing the manifest, updating
  the marker and reading the manifest back succeed.
\<close>

record env =
  dirAbs :: bool
  dirExists :: bool
  outputAbs :: bool
  walk :: "visit list"
  now :: instant
  canWrite :: bool
  canTouch :: bool
  canReadBack :: bool

text \<open>The ways \<^verbatim>\<open>log.Fatal\<close> ends the process.\<close>

datatype failure =
  InvalidDirectory | DirectoryDoesNotExist | InvalidOutputPath | WriteFailed | MarkerFailed

text \<open>
  What a run does that can be observed: the lines it logs, and its calls of \<^verbatim>\<open>fileMD5\<close>
  and \<^verbatim>\<open>writeChecksums\<close>.
\<close>

datatype event =
  Checking string
  | SKIPPING
  | RelativePathError
  | CallFileMD5 string
  | ChecksumFailed string
  | NoChangesDetected
  | UpdatedLastRun
  | CallWriteChecksums
  | UpdatedChecksums string
  | FailedToReadOutput
  | Processed "64 word" nat

subsection \<open>The functions of main.go\<close>

text \<open>\<^verbatim>\<open>fileMD5\<close> (lines 124 to 136): the digest in hexadecimal, or the I/O error.\<close>

definition fileMD5 :: "entry \<Rightarrow> unit + string" where
  "fileMD5 f =
     (case md5sum f of None \<Rightarrow> Inl () | Some d \<Rightarrow> Inr (EncodeToString (digestBytes d)))"

text \<open>\<^verbatim>\<open>readChecksums\<close> (lines 138 to 155).\<close>

definition readLine :: "string \<Rightarrow> checksums \<Rightarrow> checksums" where
  "readLine text checksums =
     (let line = TrimSpace text;
          parts = SplitN2 line ''  ''
      in if length parts = 2 then AList.update (parts ! 1) (parts ! 0) checksums
         else checksums)"

definition readChecksums :: "string option \<Rightarrow> checksums" where
  "readChecksums file =
     (case file of None \<Rightarrow> [] | Some data \<Rightarrow> fold readLine (ScanLines data) [])"

text \<open>
  \<^verbatim>\<open>writeChecksums\<close> (lines 157 to 178): the keys are collected and sorted, one line is
  printed per key, and the temporary file is renamed over the output file. When
  creating, writing or renaming fails, the output file is as it was.
\<close>

definition sortedPaths :: "checksums \<Rightarrow> string list" where
  "sortedPaths checksums = sort (map fst checksums)"

definition manifestLine :: "checksums \<Rightarrow> string \<Rightarrow> string" where
  "manifestLine checksums path = index checksums path @ ''  '' @ path @ [CHR 0x0A]"

definition manifestText :: "checksums \<Rightarrow> string" where
  "manifestText checksums = concat (map (manifestLine checksums) (sortedPaths checksums))"

definition writeChecksums :: "env \<Rightarrow> world \<Rightarrow> checksums \<Rightarrow> failure + world" where
  "writeChecksums e w checksums =
     (if canWrite e then Inr (w\<lparr>manifest := Some (manifestText checksums)\<rparr>)
      else Inl WriteFailed)"

text \<open>\<^verbatim>\<open>getLastRunTime\<close> (lines 180 to 186).\<close>

definition getLastRunTime :: "world \<Rightarrow> instant" where
  "getLastRunTime w = (case marker w of None \<Rightarrow> zeroTime | Some t \<Rightarrow> t)"

text \<open>\<^verbatim>\<open>updateLastRun\<close> (lines 188 to 203): every failure in it is fatal.\<close>

definition updateLastRun :: "env \<Rightarrow> world \<Rightarrow> failure + world" where
  "updateLastRun e w =
     (if canTouch e then Inr (w\<lparr>marker := Some (now e)\<rparr>) else Inl MarkerFailed)"

text \<open>\<^verbatim>\<open>mapsEqual\<close> (lines 205 to 215).\<close>

definition mapsEqual :: "checksums \<Rightarrow> checksums \<Rightarrow> bool" where
  "mapsEqual a b =
     (if length a \<noteq> length b then False
      else list_all (\<lambda>(k, av). case map_of b k of None \<Rightarrow> False | Some bv \<Rightarrow> bv = av) a)"

text \<open>\<^verbatim>\<open>fileExistsInChecksums\<close> (lines 217 to 220).\<close>

definition fileExistsInChecksums :: "string \<Rightarrow> checksums \<Rightarrow> bool" where
  "fileExistsInChecksums path checksums = (map_of checksums path \<noteq> None)"

subsection \<open>The scan\<close>

text \<open>
  The variables of \<^verbatim>\<open>main\<close> that the callback updates (lines 43 to 53), and the trace of
  the run. \<^verbatim>\<open>processedCount\<close> is a Go \<^verbatim>\<open>int\<close>, 64 bits wide on the usual platforms.
\<close>

record scan =
  newChecksums :: checksums
  changed :: bool
  neededUpdate :: bool
  processedCount :: "64 word"
  trace :: "event list"

definition emit :: "event list \<Rightarrow> scan \<Rightarrow> scan" where
  "emit evs s = s\<lparr>trace := trace s @ evs\<rparr>"

text \<open>The staleness test of line 76.\<close>

definition needsUpdate :: "checksums \<Rightarrow> instant \<Rightarrow> string \<Rightarrow> entry \<Rightarrow> bool" where
  "needsUpdate existingChecksums lastRun rel f =
     (After (modTime f) lastRun \<or> \<not> fileExistsInChecksums rel existingChecksums)"

text \<open>Lines 84 to 89, after \<^verbatim>\<open>fileMD5\<close> has returned the checksum \<open>md5\<close> (\<^verbatim>\<open>sum\<close> in the source).\<close>

definition record_sum :: "checksums \<Rightarrow> string \<Rightarrow> string \<Rightarrow> scan \<Rightarrow> scan" where
  "record_sum existingChecksums rel md5 s =
     (let s' = (if index existingChecksums rel \<noteq> md5
                then s\<lparr>changed := True,
                       newChecksums := AList.update rel md5 (newChecksums s),
                       processedCount := processedCount s + 1\<rparr>
                else s)
      in s'\<lparr>neededUpdate := True\<rparr>)"

text \<open>The callback given to \<^verbatim>\<open>filepath.Walk\<close> (lines 58 to 92). It always returns nil.\<close>

definition walkFn :: "checksums \<Rightarrow> instant \<Rightarrow> visit \<Rightarrow> scan \<Rightarrow> scan" where
  "walkFn existingChecksums lastRun v s =
     (case v of
        WalkError \<Rightarrow> s
      | Directory \<Rightarrow> s
      | File f \<Rightarrow>
          (case relPath f of
             None \<Rightarrow> emit [RelativePathError] s
           | Some rel \<Rightarrow>
               if HasSuffix rel MD5TimestampFile then emit [Checking rel, SKIPPING] s
               else if needsUpdate existingChecksums lastRun rel f then
                 (case fileMD5 f of
                    Inl err \<Rightarrow> emit [Checking rel, CallFileMD5 rel, ChecksumFailed rel] s
                  | Inr md5 \<Rightarrow>
                      record_sum existingChecksums rel md5
                        (emit [Checking rel, CallFileMD5 rel] s))
               else emit [Checking rel] s))"

text \<open>
  \<^verbatim>\<open>filepath.Walk\<close> calls the callback on every entry in turn; as the callback never
  returns an error, no entry is left out.
\<close>

fun Walk :: "(visit \<Rightarrow> scan \<Rightarrow> scan) \<Rightarrow> visit list \<Rightarrow> scan \<Rightarrow> scan" where
  "Walk fn [] s = s"
| "Walk fn (v # vs) s = Walk fn vs (fn v s)"

text \<open>Lines 43 to 46: the working manifest starts as a copy of the existing one.\<close>

definition copyChecksums :: "checksums \<Rightarrow> checksums" where
  "copyChecksums existingChecksums =
     fold (\<lambda>(k, v) m. AList.update k v m) existingChecksums []"

definition initial :: "checksums \<Rightarrow> scan" where
  "initial existingChecksums =
     \<lparr>newChecksums = copyChecksums existingChecksums, changed = False,
      neededUpdate = False, processedCount = 0, trace = []\<rparr>"

text \<open>Lines 42 to 92: loading the manifest and the marker, and the traversal.\<close>

definition traverse :: "env \<Rightarrow> world \<Rightarrow> scan" where
  "traverse e w =
     (let existingChecksums = readChecksums (manifest w);
          lastRun = getLastRunTime w
      in Walk (walkFn existingChecksums lastRun) (walk e) (initial existingChecksums))"

text \<open>The test of line 96: nothing is to be written.\<close>

definition noChanges :: "checksums \<Rightarrow> scan \<Rightarrow> bool" where
  "noChanges existingChecksums s =
     (\<not> changed s \<and> mapsEqual existingChecksums (newChecksums s))"

text \<open>Lines 96 to 121.\<close>

definition finish :: "env \<Rightarrow> world \<Rightarrow> scan \<Rightarrow> failure + (world \<times> scan)" where
  "finish e w s =
     (if noChanges (readChecksums (manifest w)) s then
        (if neededUpdate s then
           (case updateLastRun e w of
              Inl err \<Rightarrow> Inl err
            | Inr w' \<Rightarrow> Inr (w', emit [NoChangesDetected, UpdatedLastRun] s))
         else Inr (w, emit [NoChangesDetected] s))
      else
        (case writeChecksums e w (newChecksums s) of
           Inl err \<Rightarrow> Inl err
         | Inr w' \<Rightarrow>
             (case updateLastRun e w' of
                Inl err \<Rightarrow> Inl err
              | Inr w'' \<Rightarrow>
                  Inr (w'',
                    emit [CallWriteChecksums,
                          (if canReadBack e
                           then UpdatedChecksums (manifestText (newChecksums s))
                           else FailedToReadOutput),
                          Processed (processedCount s) (length (newChecksums s))] s))))"

text \<open>\<^verbatim>\<open>main\<close> (lines 22 to 122).\<close>

definition main :: "env \<Rightarrow> world \<Rightarrow> failure + (world \<times> scan)" where
  "main e w =
     (if \<not> dirAbs e then Inl InvalidDirectory
      else if \<not> dirExists e then Inl DirectoryDoesNotExist
      else if \<not> outputAbs e then Inl InvalidOutputPath
      else finish e w (traverse e w))"

subsection \<open>Auxiliary notions\<close>

text \<open>
  What the callback does with one entry, read off \<open>walkFn\<close>: \<open>hashes\<close> gives the
  path and entry on which \<^verbatim>\<open>fileMD5\<close> is called, \<open>stores\<close> the path and checksum stored
  in the working manifest, and \<open>evaluated\<close> holds when line 89 is reached.
\<close>

definition hashes :: "checksums \<Rightarrow> instant \<Rightarrow> visit \<Rightarrow> (string \<times> entry) option" where
  "hashes ex lr v =
     (case v of
        File f \<Rightarrow>
          (case relPath f of
             Some rel \<Rightarrow>
               if \<not> HasSuffix rel MD5TimestampFile \<and> needsUpdate ex lr rel f then Some (rel, f)
               else None
           | None \<Rightarrow> None)
      | _ \<Rightarrow> None)"

definition stores :: "checksums \<Rightarrow> instant \<Rightarrow> visit \<Rightarrow> (string \<times> string) option" where
  "stores ex lr v =
     (case hashes ex lr v of
        None \<Rightarrow> None
      | Some (rel, f) \<Rightarrow>
          (case fileMD5 f of
             Inl err \<Rightarrow> None
           | Inr md5 \<Rightarrow> if index ex rel \<noteq> md5 then Some (rel, md5) else None))"

definition evaluated :: "checksums \<Rightarrow> instant \<Rightarrow> visit \<Rightarrow> bool" where
  "evaluated ex lr v =
     (case hashes ex lr v of None \<Rightarrow> False | Some (rel, f) \<Rightarrow> md5sum f \<noteq> None)"

text \<open>A sequence of stores into a map, in order.\<close>

definition storeAll :: "(string \<times> string) list \<Rightarrow> checksums \<Rightarrow> checksums" where
  "storeAll kvs m = fold (\<lambda>(k, x). AList.update k x) kvs m"


text \<open>
  Entries that survive being written and read again: the path is not empty, holds no
  newline and does not end with a white space rune; the checksum is a non-empty string
  of hexadecimal digits; the line fits the scanner's buffer. \<open>entryLine\<close> is the line
  of a path without its newline, and a byte is \<open>low\<close> when it is an ASCII byte.
\<close>

definition plainPath :: "string \<Rightarrow> bool" where
  "plainPath k = (k \<noteq> [] \<and> CHR 0x0A \<notin> set k \<and> trailingSpace k = 0)"

definition hexSum :: "string \<Rightarrow> bool" where
  "hexSum v = (v \<noteq> [] \<and> set v \<subseteq> set hextable)"

definition plainEntry :: "string \<times> string \<Rightarrow> bool" where
  "plainEntry kv =
     (plainPath (fst kv) \<and> hexSum (snd kv) \<and>
      int (length (snd kv) + 2 + length (fst kv)) < MaxScanTokenSize)"

definition entryLine :: "checksums \<Rightarrow> string \<Rightarrow> string" where
  "entryLine m p = index m p @ ''  '' @ p"

definition low :: "char \<Rightarrow> bool" where
  "low c = (of_char c < (128 :: nat))"

subsection \<open>Example runs\<close>

text \<open>
  The scenario of the specification: the root holds \<^verbatim>\<open>a.txt\<close> with content \<^verbatim>\<open>hi\<close>, whose
  MD5 digest is \<^verbatim>\<open>49f68a5c8493ec2c0bf489821c21fc3b\<close>, and there is neither a manifest
  nor a marker. \<open>world1\<close> is what the first run leaves.
\<close>

definition fileA :: entry where
  "fileA = \<lparr>relPath = Some ''a.txt'', modTime = 5,
            md5sum = Some 0x49f68a5c8493ec2c0bf489821c21fc3b\<rparr>"

definition env1 :: env where
  "env1 = \<lparr>dirAbs = True, dirExists = True, outputAbs = True,
           walk = [Directory, File fileA], now = 10,
           canWrite = True, canTouch = True, canReadBack = True\<rparr>"

definition world0 :: world where
  "world0 = \<lparr>manifest = None, marker = None\<rparr>"

definition world1 :: world where
  "world1 = \<lparr>manifest = Some (''49f68a5c8493ec2c0bf489821c21fc3b  a.txt'' @ [CHR 0x0A]),
             marker = Some 10\<rparr>"

text \<open>
  Later runs on \<open>world1\<close>: \<^verbatim>\<open>a.txt\<close> has been touched but not edited (\<open>env2\<close>), or a
  new empty file \<^verbatim>\<open>b.txt\<close> has appeared (\<open>env3\<close>).
\<close>

definition fileTouched :: entry where
  "fileTouched = \<lparr>relPath = Some ''a.txt'', modTime = 20,
            md5sum = Some 0x49f68a5c8493ec2c0bf489821c21fc3b\<rparr>"

definition env2 :: env where
  "env2 = \<lparr>dirAbs = True, dirExists = True, outputAbs = True,
           walk = [Directory, File fileTouched], now = 30,
           canWrite = True, canTouch = True, canReadBack = True\<rparr>"

definition fileB :: entry where
  "fileB = \<lparr>relPath = Some ''b.txt'', modTime = 20,
            md5sum = Some 0xd41d8cd98f00b204e9800998ecf8427e\<rparr>"

definition env3 :: env where
  "env3 = \<lparr>dirAbs = True, dirExists = True, outputAbs = True,
           walk = [Directory, File fileB], now = 30,
           canWrite = True, canTouch = True, canReadBack = True\<rparr>"

text \<open>
  A map of three entries, stored out of order. In byte order an upper case letter
  comes before every lower case letter.
\<close>

definition someEntries :: checksums where
  "someEntries = [(''b.txt'', ''49f68a5c8493ec2c0bf489821c21fc3b''),
                  (''a.txt'', ''d41d8cd98f00b204e9800998ecf8427e''),
                  (''B.txt'', ''49f68a5c8493ec2c0bf489821c21fc3b'')]"


definition world2 :: world where
  "world2 = \<lparr>manifest = Some (''49f68a5c8493ec2c0bf489821c21fc3b  a.txt'' @ [CHR 0x0A]),
             marker = Some 30\<rparr>"

definition scan2 :: scan where
  "scan2 = \<lparr>newChecksums = [(''a.txt'', ''49f68a5c8493ec2c0bf489821c21fc3b'')],
            changed = False, neededUpdate = True, processedCount = 0,
            trace = [Checking ''a.txt'', CallFileMD5 ''a.txt'', NoChangesDetected,
                     UpdatedLastRun]\<rparr>"

text \<open>
  A run that meets a file it cannot read, a run that meets the marker file itself, and
  a prior manifest with an entry for the marker file (as \<^verbatim>\<open>md5sum\<close> run by hand in the
  root would write it).
\<close>

definition fileLocked :: entry where
  "fileLocked = \<lparr>relPath = Some ''locked.bin'', modTime = 5, md5sum = None\<rparr>"

definition envLocked :: env where
  "envLocked = \<lparr>dirAbs = True, dirExists = True, outputAbs = True,
           walk = [Directory, File fileLocked], now = 10,
           canWrite = True, canTouch = True, canReadBack = True\<rparr>"

definition scanLocked :: scan where
  "scanLocked = \<lparr>newChecksums = [], changed = False, neededUpdate = False,
                 processedCount = 0,
                 trace = [Checking ''locked.bin'', CallFileMD5 ''locked.bin'',
                          ChecksumFailed ''locked.bin'', NoChangesDetected]\<rparr>"

definition fileMarker :: entry where
  "fileMarker = \<lparr>relPath = Some ''.md5sum-timestamp'', modTime = 10,
                 md5sum = Some 0xd41d8cd98f00b204e9800998ecf8427e\<rparr>"

definition envMarker :: env where
  "envMarker = \<lparr>dirAbs = True, dirExists = True, outputAbs = True,
           walk = [Directory, File fileMarker, File fileA], now = 20,
           canWrite = True, canTouch = True, canReadBack = True\<rparr>"

definition worldM :: world where
  "worldM = \<lparr>manifest = Some (''d41d8cd98f00b204e9800998ecf8427e  .md5sum-timestamp'' @ [CHR 0x0A]),
             marker = Some 3\<rparr>"
























section \<open>Properties\<close>

subsection \<open>The fields of the scan state\<close>

lemma newChecksums_emit [simp]: "newChecksums (emit evs s) = newChecksums s"
  and changed_emit [simp]: "changed (emit evs s) = changed s"
  and neededUpdate_emit [simp]: "neededUpdate (emit evs s) = neededUpdate s"
  and processedCount_emit [simp]: "processedCount (emit evs s) = processedCount s"
  and trace_emit [simp]: "trace (emit evs s) = trace s @ evs"
  by (simp_all add: emit_def)

lemma initial_fields [simp]:
  "newChecksums (initial ex) = copyChecksums ex"
  "changed (initial ex) = False"
  "neededUpdate (initial ex) = False"
  "processedCount (initial ex) = 0"
  "trace (initial ex) = []"
  by (simp_all add: initial_def)

lemma newChecksums_walkFn:
  "newChecksums (walkFn ex lr v s) =
     (case stores ex lr v of None \<Rightarrow> newChecksums s
      | Some (k, x) \<Rightarrow> AList.update k x (newChecksums s))"
  by (simp add: walkFn_def stores_def hashes_def record_sum_def Let_def
      split: visit.splits option.splits sum.splits)

lemma changed_walkFn: "changed (walkFn ex lr v s) = (changed s \<or> stores ex lr v \<noteq> None)"
  by (simp add: walkFn_def stores_def hashes_def record_sum_def Let_def
      split: visit.splits option.splits sum.splits)

lemma processedCount_walkFn:
  "processedCount (walkFn ex lr v s) =
     (if stores ex lr v = None then processedCount s else processedCount s + 1)"
  by (simp add: walkFn_def stores_def hashes_def record_sum_def Let_def
      split: visit.splits option.splits sum.splits)

lemma neededUpdate_walkFn:
  "neededUpdate (walkFn ex lr v s) = (neededUpdate s \<or> evaluated ex lr v)"
  by (simp add: walkFn_def evaluated_def hashes_def record_sum_def Let_def fileMD5_def
      split: visit.splits option.splits sum.splits)

lemma hashed_walkFn:
  "CallFileMD5 p \<in> set (trace (walkFn ex lr v s)) \<longleftrightarrow>
     CallFileMD5 p \<in> set (trace s) \<or> (\<exists>f. hashes ex lr v = Some (p, f))"
  by (auto simp add: walkFn_def hashes_def record_sum_def Let_def
      split: visit.splits option.splits sum.splits)


subsection \<open>The traversal as a whole\<close>

lemma storeAll_simps [simp]:
  "storeAll [] m = m"
  "storeAll ((k, x) # kvs) m = storeAll kvs (AList.update k x m)"
  by (simp_all add: storeAll_def)

lemma newChecksums_Walk:
  "newChecksums (Walk (walkFn ex lr) vs s) =
     storeAll (List.map_filter (stores ex lr) vs) (newChecksums s)"
  by (induction vs arbitrary: s)
    (auto simp: newChecksums_walkFn List.map_filter_simps split: option.splits)

lemma changed_Walk:
  "changed (Walk (walkFn ex lr) vs s) = (changed s \<or> (\<exists>v \<in> set vs. stores ex lr v \<noteq> None))"
  by (induction vs arbitrary: s) (auto simp: changed_walkFn)

lemma neededUpdate_Walk:
  "neededUpdate (Walk (walkFn ex lr) vs s) =
     (neededUpdate s \<or> (\<exists>v \<in> set vs. evaluated ex lr v))"
  by (induction vs arbitrary: s) (auto simp: neededUpdate_walkFn)

lemma hashed_Walk:
  "CallFileMD5 p \<in> set (trace (Walk (walkFn ex lr) vs s)) \<longleftrightarrow>
     CallFileMD5 p \<in> set (trace s) \<or> (\<exists>v \<in> set vs. \<exists>f. hashes ex lr v = Some (p, f))"
  by (induction vs arbitrary: s) (auto simp: hashed_walkFn)


subsection \<open>Maps as association lists\<close>

lemma map_of_storeAll:
  "map_of (storeAll kvs m) p =
     (case map_of (rev kvs) p of None \<Rightarrow> map_of m p | Some x \<Rightarrow> Some x)"
  by (induction kvs arbitrary: m)
    (auto simp: update_conv' map_add_def split: option.splits)

lemma keys_storeAll: "fst ` set (storeAll kvs m) = fst ` set m \<union> fst ` set kvs"
proof (induction kvs arbitrary: m)
  case Nil
  then show ?case by simp
next
  case (Cons kv kvs)
  obtain k x where kv: "kv = (k, x)" by (cases kv)
  have "fst ` set (AList.update k x m) = insert k (fst ` set m)"
    using dom_update [of k x m] by (simp add: dom_map_of_conv_image_fst)
  with Cons.IH [of "AList.update k x m"] kv show ?case by auto
qed

lemma distinct_storeAll: "distinct (map fst m) \<Longrightarrow> distinct (map fst (storeAll kvs m))"
  by (induction kvs arbitrary: m) (auto simp: distinct_update)

lemma update_fresh: "k \<notin> fst ` set m \<Longrightarrow> AList.update k x m = m @ [(k, x)]"
  by (induction m) auto

lemma storeAll_fresh: "distinct (map fst (m @ kvs)) \<Longrightarrow> storeAll kvs m = m @ kvs"
proof (induction kvs arbitrary: m)
  case Nil
  then show ?case by simp
next
  case (Cons kv kvs)
  obtain k x where kv: "kv = (k, x)" by (cases kv)
  from Cons.prems kv have fresh: "k \<notin> fst ` set m" by auto
  from Cons.prems kv have "distinct (map fst ((m @ [(k, x)]) @ kvs))" by simp
  from Cons.IH [OF this] fresh kv show ?case by (simp add: update_fresh)
qed

lemma copyChecksums_keys: "fst ` set (copyChecksums m) = fst ` set m"
  using keys_storeAll [of m "[]"] by (simp add: copyChecksums_def storeAll_def)

lemma copyChecksums_distinct: "distinct (map fst (copyChecksums m))"
  using distinct_storeAll [of "[]" m] by (simp add: copyChecksums_def storeAll_def)

lemma copyChecksums_id: "distinct (map fst m) \<Longrightarrow> copyChecksums m = m"
  using storeAll_fresh [of "[]" m] by (simp add: copyChecksums_def storeAll_def)

lemma readLine_distinct: "distinct (map fst m) \<Longrightarrow> distinct (map fst (readLine text m))"
  by (simp add: readLine_def Let_def distinct_update)

lemma fold_readLine_distinct:
  "distinct (map fst m) \<Longrightarrow> distinct (map fst (fold readLine ls m))"
  by (induction ls arbitrary: m) (auto simp: readLine_distinct)

lemma readChecksums_distinct: "distinct (map fst (readChecksums content))"
  by (cases content) (auto simp: readChecksums_def fold_readLine_distinct)

text \<open>On maps with distinct keys, \<open>mapsEqual\<close> decides the equality of the mappings.\<close>

lemma mapsEqual_iff:
  assumes a: "distinct (map fst a)" and b: "distinct (map fst b)"
  shows "mapsEqual a b \<longleftrightarrow> map_of a = map_of b"
proof
  assume eq: "mapsEqual a b"
  then have len: "length a = length b"
    and all: "\<forall>(k, av) \<in> set a. map_of b k = Some av"
    by (auto simp: mapsEqual_def list_all_iff split: if_splits option.splits)
  from all have sub: "set a \<subseteq> set b"
    by (auto dest: map_of_SomeD)
  from a have da: "distinct a" by (rule distinct_map [THEN iffD1, THEN conjunct1])
  from b have db: "distinct b" by (rule distinct_map [THEN iffD1, THEN conjunct1])
  have "card (set a) = card (set b)"
    using da db len by (simp add: distinct_card)
  with sub have "set a = set b"
    by (simp add: card_subset_eq)
  with a b show "map_of a = map_of b"
    by (simp add: map_of_inject_set)
next
  assume eq: "map_of a = map_of b"
  with a b have sets: "set a = set b"
    by (simp add: map_of_inject_set)
  from a have da: "distinct a" by (rule distinct_map [THEN iffD1, THEN conjunct1])
  from b have db: "distinct b" by (rule distinct_map [THEN iffD1, THEN conjunct1])
  have "length a = length b"
    using da db sets distinct_card [of a] distinct_card [of b] by simp
  moreover have "\<forall>(k, av) \<in> set a. map_of b k = Some av"
    using sets b by auto
  ultimately show "mapsEqual a b"
    by (auto simp: mapsEqual_def list_all_iff)
qed

lemma stores_differs: "stores ex lr v = Some (k, x) \<Longrightarrow> map_of ex k \<noteq> Some x"
  by (auto simp: stores_def index_def split: option.splits sum.splits if_splits)

lemma map_filter_Nil_iff: "List.map_filter f xs = [] \<longleftrightarrow> (\<forall>x \<in> set xs. f x = None)"
  by (induction xs) (auto simp: List.map_filter_simps split: option.splits)

lemma set_map_filter: "set (List.map_filter f xs) = {y. \<exists>x \<in> set xs. f x = Some y}"
  by (induction xs) (auto simp: List.map_filter_simps split: option.splits)

lemma Walk_differs:
  assumes "\<exists>v \<in> set vs. stores ex lr v \<noteq> None"
  shows "map_of (newChecksums (Walk (walkFn ex lr) vs s)) \<noteq> map_of ex"
proof -
  let ?kvs = "List.map_filter (stores ex lr) vs"
  from assms have "?kvs \<noteq> []"
    using map_filter_Nil_iff [of "stores ex lr" vs] by metis
  then obtain k x kvs' where kvs: "?kvs = kvs' @ [(k, x)]"
    by (cases ?kvs rule: rev_cases) auto
  then have "(k, x) \<in> set ?kvs" by simp
  then obtain v where "stores ex lr v = Some (k, x)"
    by (auto simp: set_map_filter)
  then have neq: "map_of ex k \<noteq> Some x"
    by (rule stores_differs)
  have "map_of (newChecksums (Walk (walkFn ex lr) vs s)) k = Some x"
    by (simp add: newChecksums_Walk map_of_storeAll kvs)
  with neq show ?thesis by metis
qed

lemma Walk_unchanged:
  assumes "\<not> (\<exists>v \<in> set vs. stores ex lr v \<noteq> None)"
  shows "newChecksums (Walk (walkFn ex lr) vs s) = newChecksums s"
proof -
  from assms have "List.map_filter (stores ex lr) vs = []"
    using map_filter_Nil_iff [of "stores ex lr" vs] by metis
  then show ?thesis
    by (simp add: newChecksums_Walk)
qed

lemma traverse_distinct: "distinct (map fst (newChecksums (traverse e w)))"
  by (simp add: traverse_def Let_def newChecksums_Walk distinct_storeAll
      copyChecksums_distinct)

lemma traverse_changed_iff:
  "changed (traverse e w) \<longleftrightarrow>
     map_of (newChecksums (traverse e w)) \<noteq> map_of (readChecksums (manifest w))"
proof (cases "\<exists>v \<in> set (walk e). stores (readChecksums (manifest w)) (getLastRunTime w) v \<noteq> None")
  case True
  then show ?thesis
    using Walk_differs [OF True]
    by (simp add: traverse_def Let_def changed_Walk)
next
  case False
  then show ?thesis
    using Walk_unchanged [OF False]
    by (simp add: traverse_def Let_def changed_Walk copyChecksums_id readChecksums_distinct)
qed

lemma traverse_mapsEqual_iff:
  "mapsEqual (readChecksums (manifest w)) (newChecksums (traverse e w)) \<longleftrightarrow>
     map_of (newChecksums (traverse e w)) = map_of (readChecksums (manifest w))"
  using mapsEqual_iff [OF readChecksums_distinct traverse_distinct, of "manifest w" e w]
  by auto

subsection \<open>What a run hashes and writes\<close>

lemma hashed_finish:
  "finish e w s = Inr (w', s') \<Longrightarrow>
     CallFileMD5 p \<in> set (trace s') \<longleftrightarrow> CallFileMD5 p \<in> set (trace s)"
  by (auto simp: finish_def split: if_splits sum.splits)

lemma hashed_traverse:
  "CallFileMD5 p \<in> set (trace (traverse e w)) \<longleftrightarrow>
     (\<exists>v \<in> set (walk e). \<exists>f. hashes (readChecksums (manifest w)) (getLastRunTime w) v = Some (p, f))"
  by (simp add: traverse_def Let_def hashed_Walk)

lemma hashes_SomeD:
  "hashes ex lr v = Some (p, f) \<Longrightarrow>
     v = File f \<and> relPath f = Some p \<and> \<not> HasSuffix p MD5TimestampFile \<and> needsUpdate ex lr p f"
  by (auto simp: hashes_def split: visit.splits option.splits if_splits)

lemma hashes_File:
  "relPath f = Some p \<Longrightarrow> \<not> HasSuffix p MD5TimestampFile \<Longrightarrow> needsUpdate ex lr p f \<Longrightarrow>
     hashes ex lr (File f) = Some (p, f)"
  by (simp add: hashes_def)

lemma set_sortedPaths: "set (sortedPaths m) = fst ` set m"
  by (simp add: sortedPaths_def)

lemma keys_Walk:
  "fst ` set (newChecksums s) \<subseteq> fst ` set (newChecksums (Walk (walkFn ex lr) vs s))"
  by (simp add: newChecksums_Walk keys_storeAll)

lemma map_of_key: "p \<in> fst ` set m \<Longrightarrow> \<exists>c. map_of m p = Some c"
  by (induction m) auto






lemma main_Inr: "main e w = Inr r \<Longrightarrow> finish e w (traverse e w) = Inr r"
  by (simp add: main_def split: if_splits)



subsection \<open>Checksums, new files and the marker\<close>

lemma length_EncodeToString: "length (EncodeToString src) = 2 * length src"
  by (induction src) (simp_all add: EncodeToString_def)

lemma length_digestBytes: "length (digestBytes d) = 16"
  by (simp add: digestBytes_def)

lemma fileMD5_Some: "md5sum f = Some d \<Longrightarrow> fileMD5 f = Inr (EncodeToString (digestBytes d))"
  by (simp add: fileMD5_def)

lemma checksum_not_empty: "EncodeToString (digestBytes d) \<noteq> []"
  using length_EncodeToString [of "digestBytes d"] length_digestBytes [of d]
  by auto

lemma fileExists_iff: "fileExistsInChecksums p m \<longleftrightarrow> p \<in> fst ` set m"
  by (simp add: fileExistsInChecksums_def map_of_eq_None_iff)

lemma newChecksums_traverse:
  "newChecksums (traverse e w) =
     storeAll (List.map_filter (stores (readChecksums (manifest w)) (getLastRunTime w)) (walk e))
       (readChecksums (manifest w))"
  by (simp add: traverse_def Let_def newChecksums_Walk copyChecksums_id readChecksums_distinct)

lemma neededUpdate_traverse:
  "neededUpdate (traverse e w) \<longleftrightarrow>
     (\<exists>v \<in> set (walk e). evaluated (readChecksums (manifest w)) (getLastRunTime w) v)"
  by (simp add: traverse_def Let_def neededUpdate_Walk)

lemma neededUpdate_finish:
  "finish e w s = Inr (w', s') \<Longrightarrow> neededUpdate s \<Longrightarrow> marker w' = Some (now e)"
  by (auto simp: finish_def updateLastRun_def writeChecksums_def split: if_splits sum.splits)

lemma finish_returns:
  "canWrite e \<Longrightarrow> canTouch e \<Longrightarrow> \<exists>w' s'. finish e w s = Inr (w', s')"
  by (simp add: finish_def updateLastRun_def writeChecksums_def)

lemma stores_key:
  "stores ex lr v = Some (k, x) \<Longrightarrow> \<exists>f. hashes ex lr v = Some (k, f)"
  by (auto simp: stores_def split: option.splits sum.splits if_splits)

lemma map_of_storeAll_other:
  "p \<notin> fst ` set kvs \<Longrightarrow> map_of (storeAll kvs m) p = map_of m p"
proof -
  assume "p \<notin> fst ` set kvs"
  then have "map_of (rev kvs) p = None"
    by (simp add: map_of_eq_None_iff)
  then show ?thesis
    by (simp add: map_of_storeAll)
qed

lemma stores_new_file:
  assumes "relPath f = Some rel"
    and "\<not> HasSuffix rel MD5TimestampFile"
    and "\<not> fileExistsInChecksums rel ex"
    and "md5sum f = Some d"
  shows "stores ex lr (File f) = Some (rel, EncodeToString (digestBytes d))"
  using assms checksum_not_empty [of d]
  by (simp add: stores_def hashes_def needsUpdate_def fileMD5_def index_def
      fileExistsInChecksums_def)

subsection \<open>Scanning again\<close>


lemma stores_relPath:
  "stores ex lr v = Some (k, x) \<Longrightarrow> \<exists>f. v = File f \<and> relPath f = Some k"
  by (auto dest!: stores_key hashes_SomeD)











subsection \<open>Reading back a saved manifest\<close>

lemma rawLines_line:
  "CHR 0x0A \<notin> set l \<Longrightarrow> rawLines cur (l @ CHR 0x0A # rest) = (cur @ l) # rawLines [] rest"
  by (induction l arbitrary: cur) auto

lemma rawLines_concat:
  "\<forall>l \<in> set ls. CHR 0x0A \<notin> set l \<Longrightarrow>
     rawLines [] (concat (map (\<lambda>l. l @ [CHR 0x0A]) ls)) = ls"
proof (induction ls)
  case Nil
  then show ?case by simp
next
  case (Cons l ls)
  then have "CHR 0x0A \<notin> set l" by simp
  from rawLines_line [OF this, of "[]" "concat (map (\<lambda>l. l @ [CHR 0x0A]) ls)"] Cons
  show ?case by simp
qed

lemma takeWhile_all: "\<forall>x \<in> set xs. P x \<Longrightarrow> takeWhile P xs = xs"
  by (induction xs) auto

lemma ScanLines_lines:
  assumes "\<forall>l \<in> set ls. CHR 0x0A \<notin> set l \<and> int (length l) < MaxScanTokenSize \<and> dropCR l = l"
  shows "ScanLines (concat (map (\<lambda>l. l @ [CHR 0x0A]) ls)) = ls"
proof -
  from assms have r: "rawLines [] (concat (map (\<lambda>l. l @ [CHR 0x0A]) ls)) = ls"
    by (simp add: rawLines_concat)
  from assms have t: "takeWhile (\<lambda>line. int (length line) < MaxScanTokenSize) ls = ls"
    by (simp add: takeWhile_all)
  from assms have d: "map dropCR ls = ls"
    by (simp add: map_idI)
  show ?thesis
    unfolding ScanLines_def r t d ..
qed

lemma HasSuffix_iff: "HasSuffix s r \<longleftrightarrow> (\<exists>p. s = p @ r)"
proof
  assume "HasSuffix s r"
  then have "drop (length s - length r) s = r"
    by (simp add: HasSuffix_def)
  with append_take_drop_id [of "length s - length r" s]
  have "s = take (length s - length r) s @ r"
    by simp
  then show "\<exists>p. s = p @ r" ..
next
  assume "\<exists>p. s = p @ r"
  then show "HasSuffix s r"
    by (auto simp: HasSuffix_def)
qed

lemma HasSuffix_past:
  assumes "HasSuffix (a @ c # k) r" and "c \<notin> set r"
  shows "HasSuffix k r"
proof -
  from assms(1) obtain p where "a @ c # k = p @ r"
    by (auto simp: HasSuffix_iff)
  then consider (short) q where "r = q @ c # k" | (long) q where "c # k = q @ r"
    by (auto simp: append_eq_append_conv2)
  then show ?thesis
  proof cases
    case short
    with assms(2) show ?thesis by simp
  next
    case long
    with assms(2) obtain q' where "k = q' @ r"
      by (cases q) auto
    then show ?thesis by (auto simp: HasSuffix_iff)
  qed
qed

lemma spaceRunes_high: "r \<in> set spaceRunes \<Longrightarrow> r \<noteq> [] \<and> (\<forall>c \<in> set r. \<not> low c)"
  by (auto simp: spaceRunes_def low_def)

lemma hex_low: "c \<in> set hextable \<Longrightarrow> low c \<and> \<not> asciiSpace c \<and> c \<noteq> CHR 0x20 \<and> c \<noteq> CHR 0x0A"
  by (auto simp: hextable_def low_def asciiSpace_def)

lemma TrimSpace_id: "leadingSpace s = 0 \<Longrightarrow> trailingSpace s = 0 \<Longrightarrow> TrimSpace s = s"
  by (simp add: TrimSpace_def TrimLeft.simps [of s] TrimRight.simps [of s])

lemma find_None_iff': "find P xs = None \<longleftrightarrow> (\<forall>x \<in> set xs. \<not> P x)"
  by (induction xs) auto

lemma leadingSpace_low:
  assumes "low c" and "\<not> asciiSpace c"
  shows "leadingSpace (c # cs) = 0"
proof -
  have "\<forall>r \<in> set spaceRunes. \<not> HasPrefix (c # cs) r"
  proof
    fix r assume r: "r \<in> set spaceRunes"
    from spaceRunes_high [OF r] have "r \<noteq> []" and high: "\<forall>b \<in> set r. \<not> low b"
      by simp_all
    then obtain b bs where "r = b # bs" and "\<not> low b"
      by (cases r) auto
    with assms(1) show "\<not> HasPrefix (c # cs) r"
      by (auto simp: HasPrefix_def)
  qed
  then have "find (HasPrefix (c # cs)) spaceRunes = None"
    by (simp add: find_None_iff')
  with assms(2) show ?thesis
    by (simp add: leadingSpace_def)
qed

lemma trailingSpace_0D:
  assumes "trailingSpace k = 0" and "k \<noteq> []"
  shows "\<not> asciiSpace (last k)" and "\<forall>r \<in> set spaceRunes. \<not> HasSuffix k r"
proof -
  show a: "\<not> asciiSpace (last k)"
    using assms by (auto simp: trailingSpace_def split: if_splits)
  have "find (HasSuffix k) spaceRunes = None"
  proof (cases "find (HasSuffix k) spaceRunes")
    case None
    then show ?thesis .
  next
    case (Some r)
    then have "r \<in> set spaceRunes"
      by (auto simp: find_Some_iff)
    then have "r \<noteq> []"
      using spaceRunes_high by blast
    with assms a Some show ?thesis
      by (simp add: trailingSpace_def)
  qed
  then show "\<forall>r \<in> set spaceRunes. \<not> HasSuffix k r"
    by (simp add: find_None_iff')
qed

lemma low_space: "low (CHR 0x20)"
  by (simp add: low_def)

lemma trailingSpace_line:
  assumes "trailingSpace k = 0" and "k \<noteq> []"
  shows "trailingSpace (v @ ''  '' @ k) = 0"
proof -
  note k = trailingSpace_0D [OF assms]
  have "\<forall>r \<in> set spaceRunes. \<not> HasSuffix (v @ ''  '' @ k) r"
  proof
    fix r assume r: "r \<in> set spaceRunes"
    show "\<not> HasSuffix (v @ ''  '' @ k) r"
    proof
      assume "HasSuffix (v @ ''  '' @ k) r"
      then have "HasSuffix ((v @ '' '') @ CHR 0x20 # k) r"
        by simp
      moreover have "CHR 0x20 \<notin> set r"
        using spaceRunes_high [OF r] low_space by blast
      ultimately have "HasSuffix k r"
        by (rule HasSuffix_past)
      with k(2) r show False by blast
    qed
  qed
  then have "find (HasSuffix (v @ ''  '' @ k)) spaceRunes = None"
    by (simp add: find_None_iff')
  with k(1) assms(2) show ?thesis
    by (simp add: trailingSpace_def)
qed

lemma cut_sep: "CHR 0x20 \<notin> set v \<Longrightarrow> cut ''  '' (v @ ''  '' @ k) = Some (v, k)"
  by (induction v) (auto simp: HasPrefix_def)

lemma dropCR_line:
  assumes "trailingSpace k = 0" and "k \<noteq> []"
  shows "dropCR (v @ ''  '' @ k) = v @ ''  '' @ k"
proof -
  from trailingSpace_0D(1) [OF assms] have "last k \<noteq> CHR 0x0D"
    by (auto simp: asciiSpace_def)
  with assms(2) show ?thesis
    by (simp add: dropCR_def)
qed

lemma readLine_entry:
  assumes "plainPath k" and "hexSum v"
  shows "readLine (v @ ''  '' @ k) m = AList.update k v m"
proof -
  from assms(2) obtain c cs where v: "v = c # cs" and c: "c \<in> set hextable"
    by (cases v) (auto simp: hexSum_def)
  from c have "leadingSpace (c # cs @ ''  '' @ k) = 0"
    using hex_low [OF c] by (simp add: leadingSpace_low)
  moreover from assms(1) have "trailingSpace (v @ ''  '' @ k) = 0"
    using trailingSpace_line [of k v] by (simp add: plainPath_def)
  ultimately have t: "TrimSpace (v @ ''  '' @ k) = v @ ''  '' @ k"
    using v by (simp add: TrimSpace_id)
  from assms(2) have "CHR 0x20 \<notin> set v"
    using hex_low by (auto simp: hexSum_def)
  then have "SplitN2 (v @ ''  '' @ k) ''  '' = [v, k]"
    using cut_sep [of v k] by (simp add: SplitN2_def)
  with t show ?thesis
    by (simp add: readLine_def)
qed

lemma manifestLine_entryLine: "manifestLine m = (\<lambda>p. entryLine m p @ [CHR 0x0A])"
  by (simp add: fun_eq_iff manifestLine_def entryLine_def)

lemma manifestText_lines:
  "manifestText m = concat (map (\<lambda>l. l @ [CHR 0x0A]) (map (entryLine m) (sortedPaths m)))"
  by (simp add: manifestText_def manifestLine_entryLine comp_def)

lemma entry_of_key: "p \<in> fst ` set m \<Longrightarrow> (p, index m p) \<in> set m"
proof -
  assume "p \<in> fst ` set m"
  from map_of_key [OF this] obtain c where c: "map_of m p = Some c" ..
  then have "(p, c) \<in> set m" by (rule map_of_SomeD)
  with c show ?thesis by (simp add: index_def)
qed

lemma fold_readLine_entries:
  "\<forall>p \<in> set ps. plainPath p \<and> hexSum (index m p) \<Longrightarrow>
     fold readLine (map (entryLine m) ps) acc = storeAll (map (\<lambda>p. (p, index m p)) ps) acc"
proof (induction ps arbitrary: acc)
  case Nil
  then show ?case by simp
next
  case (Cons p ps)
  then have "readLine (entryLine m p) acc = AList.update p (index m p) acc"
    unfolding entryLine_def by (simp only: readLine_entry list.set insert_iff simp_thms)
  with Cons show ?case by simp
qed

lemma entryLine_plain:
  assumes "plainEntry (p, index m p)"
  shows "CHR 0x0A \<notin> set (entryLine m p) \<and>
         int (length (entryLine m p)) < MaxScanTokenSize \<and>
         dropCR (entryLine m p) = entryLine m p"
proof -
  from assms have p: "plainPath p" and v: "hexSum (index m p)"
    and n: "int (length (index m p) + 2 + length p) < MaxScanTokenSize"
    by (simp_all add: plainEntry_def)
  from v have "CHR 0x0A \<notin> set (index m p)"
    using hex_low by (auto simp: hexSum_def)
  with p have "CHR 0x0A \<notin> set (entryLine m p)"
    by (simp add: entryLine_def plainPath_def)
  moreover from n have "int (length (entryLine m p)) < MaxScanTokenSize"
    by (simp add: entryLine_def)
  moreover from p have "dropCR (entryLine m p) = entryLine m p"
    using dropCR_line [of p "index m p"] by (simp add: entryLine_def plainPath_def)
  ultimately show ?thesis by (intro conjI)
qed

lemma plain_manifest_read_back:
  assumes "\<forall>kv \<in> set m. plainEntry kv"
  shows "map_of (readChecksums (Some (manifestText m))) = map_of m"
proof -
  let ?ps = "sortedPaths m"
  have entries: "\<forall>p \<in> set ?ps. plainEntry (p, index m p)"
    using assms entry_of_key [of _ m] by (auto simp: set_sortedPaths)
  then have "\<forall>l \<in> set (map (entryLine m) ?ps). CHR 0x0A \<notin> set l \<and>
      int (length l) < MaxScanTokenSize \<and> dropCR l = l"
    using entryLine_plain [of _ m] by auto
  from ScanLines_lines [OF this]
  have "ScanLines (manifestText m) = map (entryLine m) ?ps"
    by (simp only: manifestText_lines)
  moreover from entries have "\<forall>p \<in> set ?ps. plainPath p \<and> hexSum (index m p)"
    by (simp add: plainEntry_def)
  ultimately have r: "readChecksums (Some (manifestText m)) =
      storeAll (map (\<lambda>p. (p, index m p)) ?ps) []"
    by (simp add: readChecksums_def fold_readLine_entries)
  show ?thesis
  proof
    fix q
    have "map_of (rev (map (\<lambda>p. (p, index m p)) ?ps)) q =
        (if q \<in> fst ` set m then Some (index m q) else None)"
      by (simp add: rev_map map_of_map_restrict restrict_map_def set_sortedPaths)
    moreover have "map_of m q = (if q \<in> fst ` set m then Some (index m q) else None)"
    proof (cases "q \<in> fst ` set m")
      case True
      from map_of_key [OF this] obtain c where "map_of m q = Some c" ..
      with True show ?thesis by (simp add: index_def)
    next
      case False
      then show ?thesis by (simp add: map_of_eq_None_iff)
    qed
    ultimately show "map_of (readChecksums (Some (manifestText m))) q = map_of m q"
      by (simp add: r map_of_storeAll split: option.splits)
  qed
qed

lemma nibble_high: "unat (drop_bit 4 (v :: 8 word)) < 16"
proof -
  have "unat v < 2 ^ 8"
    using unsigned_less [of v, where ?'a = nat] by simp
  then have "unat v div 2 ^ 4 < 16"
    by simp
  then show ?thesis
    by (simp add: unat_drop_bit_eq drop_bit_eq_div unat_div)
qed

lemma nibble_low: "unat ((v :: 8 word) AND 0x0f) < 16"
proof -
  have "v AND 0x0f \<le> 0x0f"
    by (rule word_and_le1)
  then have "unat (v AND 0x0f) \<le> unat (0x0f :: 8 word)"
    by (simp only: word_le_nat_alt)
  then show ?thesis
    by simp
qed

lemma hextable_nth: "n < 16 \<Longrightarrow> hextable ! n \<in> set hextable"
  by (rule nth_mem) (simp add: hextable_def)

lemma EncodeToString_hex: "set (EncodeToString src) \<subseteq> set hextable"
  using nibble_high nibble_low
  by (auto simp: EncodeToString_def intro!: hextable_nth)

lemma checksum_hex:
  "hexSum (EncodeToString (digestBytes d)) \<and> length (EncodeToString (digestBytes d)) = 32"
  using EncodeToString_hex [of "digestBytes d"] checksum_not_empty [of d]
  by (simp add: hexSum_def length_EncodeToString length_digestBytes)

lemma stores_checksum:
  "stores ex lr v = Some (k, x) \<Longrightarrow> hexSum x \<and> length x = 32"
  using checksum_hex
  by (auto simp: stores_def fileMD5_def split: option.splits sum.splits if_splits)

lemma set_update_cases: "kv \<in> set (AList.update k x m) \<Longrightarrow> kv \<in> set m \<or> kv = (k, x)"
  by (induction m) (auto split: if_splits)

lemma set_storeAll: "kv \<in> set (storeAll kvs m) \<Longrightarrow> kv \<in> set m \<or> kv \<in> set kvs"
proof (induction kvs arbitrary: m)
  case Nil
  then show ?case by simp
next
  case (Cons a kvs)
  obtain k x where a: "a = (k, x)" by (cases a)
  with Cons.prems have "kv \<in> set (storeAll kvs (AList.update k x m))" by simp
  from Cons.IH [OF this] show ?case
    using a by (auto dest: set_update_cases)
qed

lemma plain_tree_read_back:
  assumes prior: "\<forall>kv \<in> set (readChecksums (manifest w)). plainEntry kv"
    and tree: "\<forall>f rel. File f \<in> set (walk e) \<and> relPath f = Some rel \<longrightarrow>
                 plainPath rel \<and> length rel \<le> 4096"
  shows "map_of (readChecksums (Some (manifestText (newChecksums (traverse e w))))) =
         map_of (newChecksums (traverse e w))"
proof (rule plain_manifest_read_back, rule ballI)
  let ?ex = "readChecksums (manifest w)" and ?lr = "getLastRunTime w"
  fix kv assume "kv \<in> set (newChecksums (traverse e w))"
  then consider "kv \<in> set ?ex" | "kv \<in> set (List.map_filter (stores ?ex ?lr) (walk e))"
    by (auto simp: newChecksums_traverse dest: set_storeAll)
  then show "plainEntry kv"
  proof cases
    case 1
    with prior show ?thesis by blast
  next
    case 2
    obtain k x where kv: "kv = (k, x)" by (cases kv)
    with 2 obtain v where v: "v \<in> set (walk e)" "stores ?ex ?lr v = Some (k, x)"
      by (auto simp: set_map_filter)
    then obtain f where "v = File f" "relPath f = Some k"
      by (auto dest: stores_relPath)
    with v tree have "plainPath k" "length k \<le> 4096" by blast+
    moreover from stores_checksum [OF v(2)] have "hexSum x" "length x = 32" by simp_all
    ultimately show ?thesis
      by (simp add: plainEntry_def kv MaxScanTokenSize_def)
  qed
qed

section \<open>The claims\<close>

text \<open>
  Claim C10. At the end of the traversal the two signals of the write test (line 96)
  are equivalent: \<^verbatim>\<open>changed\<close> is true if and only if the working manifest is not equal
  to the existing manifest, as \<^verbatim>\<open>mapsEqual\<close> decides it and as mappings from keys to
  values. Hence the test of line 96 never takes the writing branch on the equality
  side alone: it holds exactly when \<^verbatim>\<open>changed\<close> is false.
\<close>

theorem write_signals_equivalent:
  "(changed (traverse e w) \<longleftrightarrow>
      \<not> mapsEqual (readChecksums (manifest w)) (newChecksums (traverse e w))) \<and>
   (changed (traverse e w) \<longleftrightarrow>
      map_of (newChecksums (traverse e w)) \<noteq> map_of (readChecksums (manifest w))) \<and>
   (noChanges (readChecksums (manifest w)) (traverse e w) \<longleftrightarrow> \<not> changed (traverse e w))"
  using traverse_changed_iff [of e w] traverse_mapsEqual_iff [of w e]
  by (auto simp: noChanges_def)

theorem write_signals_equivalent_witness:
  "changed (traverse env1 world0) \<and>
   \<not> mapsEqual (readChecksums (manifest world0)) (newChecksums (traverse env1 world0)) \<and>
   \<not> changed (traverse env1 world1) \<and>
   mapsEqual (readChecksums (manifest world1)) (newChecksums (traverse env1 world1))"
proof -
  have "changed (traverse env1 world0)" and "\<not> changed (traverse env1 world1)"
    by code_simp+
  then show ?thesis
    using write_signals_equivalent [of env1 world0] write_signals_equivalent [of env1 world1]
    by blast
qed

text \<open>
  Claim C3. For every visited file whose modification time is not strictly after the
  last-run instant and whose relative path is a key of the existing manifest, the
  staleness test of line 76 is false and the file is never hashed: \<^verbatim>\<open>fileMD5\<close> is not
  called on its path during the traversal, nor in the rest of the run.
\<close>

theorem not_stale_never_hashed:
  assumes present: "fileExistsInChecksums p (readChecksums (manifest w))"
    and old: "\<forall>f. File f \<in> set (walk e) \<and> relPath f = Some p \<longrightarrow>
                \<not> After (modTime f) (getLastRunTime w)"
  shows "(\<forall>f. File f \<in> set (walk e) \<and> relPath f = Some p \<longrightarrow>
            \<not> needsUpdate (readChecksums (manifest w)) (getLastRunTime w) p f) \<and>
         CallFileMD5 p \<notin> set (trace (traverse e w)) \<and>
         (\<forall>w' s'. main e w = Inr (w', s') \<longrightarrow> CallFileMD5 p \<notin> set (trace s'))"
proof -
  have fresh: "\<forall>f. File f \<in> set (walk e) \<and> relPath f = Some p \<longrightarrow>
            \<not> needsUpdate (readChecksums (manifest w)) (getLastRunTime w) p f"
    using present old by (simp add: needsUpdate_def)
  have quiet: "CallFileMD5 p \<notin> set (trace (traverse e w))"
  proof
    assume "CallFileMD5 p \<in> set (trace (traverse e w))"
    then obtain v f where "v \<in> set (walk e)"
      and "hashes (readChecksums (manifest w)) (getLastRunTime w) v = Some (p, f)"
      by (auto simp: hashed_traverse)
    then have "File f \<in> set (walk e)" "relPath f = Some p"
      "needsUpdate (readChecksums (manifest w)) (getLastRunTime w) p f"
      by (auto dest: hashes_SomeD)
    with fresh show False by blast
  qed
  have "\<forall>w' s'. main e w = Inr (w', s') \<longrightarrow> CallFileMD5 p \<notin> set (trace s')"
    using quiet by (auto simp: main_def hashed_finish split: if_splits)
  with fresh quiet show ?thesis by blast
qed

theorem not_stale_never_hashed_witness:
  "fileExistsInChecksums ''a.txt'' (readChecksums (manifest world1)) \<and>
   \<not> After (modTime fileA) (getLastRunTime world1) \<and>
   \<not> needsUpdate (readChecksums (manifest world1)) (getLastRunTime world1) ''a.txt'' fileA \<and>
   CallFileMD5 ''a.txt'' \<notin> set (trace (traverse env1 world1))"
proof -
  have present: "fileExistsInChecksums ''a.txt'' (readChecksums (manifest world1))"
    by code_simp
  have notAfter: "\<not> After (modTime fileA) (getLastRunTime world1)"
    by code_simp
  have old: "\<forall>f. File f \<in> set (walk env1) \<and> relPath f = Some ''a.txt'' \<longrightarrow>
                \<not> After (modTime f) (getLastRunTime world1)"
    using notAfter by (simp add: env1_def)
  have "File fileA \<in> set (walk env1)" "relPath fileA = Some ''a.txt''"
    by (simp_all add: env1_def fileA_def)
  with not_stale_never_hashed [OF present old] present notAfter show ?thesis
    by blast
qed

text \<open>
  Claim C5. A visited file that is stale only because its modification time is after
  the last-run instant (its path is a key of the existing manifest), and whose fresh
  checksum equals the value recorded for its path, is hashed, but the callback leaves
  \<^verbatim>\<open>changed\<close>, the working manifest and the processed-file counter as they were; it
  sets \<^verbatim>\<open>neededUpdate\<close> only.
\<close>

theorem touched_unedited_not_changed:
  assumes "relPath f = Some rel"
    and "\<not> HasSuffix rel MD5TimestampFile"
    and "After (modTime f) lastRun"
    and "fileExistsInChecksums rel existingChecksums"
    and "fileMD5 f = Inr md5"
    and "index existingChecksums rel = md5"
  shows "needsUpdate existingChecksums lastRun rel f \<and>
         CallFileMD5 rel \<in> set (trace (walkFn existingChecksums lastRun (File f) s)) \<and>
         changed (walkFn existingChecksums lastRun (File f) s) = changed s \<and>
         newChecksums (walkFn existingChecksums lastRun (File f) s) = newChecksums s \<and>
         processedCount (walkFn existingChecksums lastRun (File f) s) = processedCount s \<and>
         neededUpdate (walkFn existingChecksums lastRun (File f) s)"
  using assms
  by (simp add: walkFn_def needsUpdate_def record_sum_def)

theorem touched_unedited_not_changed_witness:
  "relPath fileTouched = Some ''a.txt'' \<and>
   \<not> HasSuffix ''a.txt'' MD5TimestampFile \<and>
   After (modTime fileTouched) (getLastRunTime world1) \<and>
   fileExistsInChecksums ''a.txt'' (readChecksums (manifest world1)) \<and>
   fileMD5 fileTouched = Inr ''49f68a5c8493ec2c0bf489821c21fc3b'' \<and>
   index (readChecksums (manifest world1)) ''a.txt'' = ''49f68a5c8493ec2c0bf489821c21fc3b'' \<and>
   CallFileMD5 ''a.txt'' \<in> set (trace (traverse env2 world1)) \<and>
   \<not> changed (traverse env2 world1) \<and>
   newChecksums (traverse env2 world1) = readChecksums (manifest world1) \<and>
   processedCount (traverse env2 world1) = 0 \<and>
   neededUpdate (traverse env2 world1)"
proof -
  have h1: "relPath fileTouched = Some ''a.txt''" by code_simp
  have h2: "\<not> HasSuffix ''a.txt'' MD5TimestampFile" by code_simp
  have h3: "After (modTime fileTouched) (getLastRunTime world1)" by code_simp
  have h4: "fileExistsInChecksums ''a.txt'' (readChecksums (manifest world1))" by code_simp
  have h5: "fileMD5 fileTouched = Inr ''49f68a5c8493ec2c0bf489821c21fc3b''" by code_simp
  have h6: "index (readChecksums (manifest world1)) ''a.txt'' = ''49f68a5c8493ec2c0bf489821c21fc3b''"
    by code_simp
  have t: "traverse env2 world1 =
      walkFn (readChecksums (manifest world1)) (getLastRunTime world1) (File fileTouched)
        (initial (readChecksums (manifest world1)))"
    by (simp add: traverse_def env2_def walkFn_def Let_def)
  have c: "copyChecksums (readChecksums (manifest world1)) = readChecksums (manifest world1)"
    by (simp add: copyChecksums_id readChecksums_distinct)
  show ?thesis
    using touched_unedited_not_changed [OF h1 h2 h3 h4 h5 h6,
        of "initial (readChecksums (manifest world1))"] h1 h2 h3 h4 h5 h6
    by (simp add: t c)
qed

text \<open>
  Claim C9. Throughout a scan the keys of the working manifest include the keys of
  the existing manifest: after any number \<open>n\<close> of callbacks, at the end of the
  traversal, and so among the paths that are written when the manifest is saved.
\<close>

theorem existing_keys_kept:
  "fst ` set (readChecksums (manifest w)) \<subseteq>
     fst ` set (newChecksums
       (Walk (walkFn (readChecksums (manifest w)) (getLastRunTime w)) (take n (walk e))
          (initial (readChecksums (manifest w))))) \<and>
   fst ` set (readChecksums (manifest w)) \<subseteq> fst ` set (newChecksums (traverse e w)) \<and>
   fst ` set (readChecksums (manifest w)) \<subseteq> set (sortedPaths (newChecksums (traverse e w)))"
  using keys_Walk [of "initial (readChecksums (manifest w))"]
  by (simp add: traverse_def Let_def set_sortedPaths copyChecksums_keys)

theorem existing_keys_kept_witness:
  "map fst (readChecksums (manifest world1)) = [''a.txt''] \<and>
   ''a.txt'' \<in> set (sortedPaths (newChecksums (traverse env3 world1))) \<and>
   sortedPaths (newChecksums (traverse env3 world1)) = [''a.txt'', ''b.txt'']"
proof -
  have k: "map fst (readChecksums (manifest world1)) = [''a.txt'']"
    by code_simp
  have s: "sortedPaths (newChecksums (traverse env3 world1)) = [''a.txt'', ''b.txt'']"
    by code_simp
  from existing_keys_kept [where w = world1 and e = env3] k s show ?thesis
    by simp
qed

text \<open>
  Claim C7. When the store saves a manifest (a map, whose keys are distinct, as those
  of the working manifest are by \<open>traverse_distinct\<close>), the file
  it writes is the concatenation of one line per key, the keys taken in strictly
  ascending lexicographic byte order, without duplicates, and each line is the
  checksum of the key, two spaces, the key and a newline.
\<close>

theorem saved_manifest_sorted:
  assumes "distinct (map fst m)"
  shows "(\<forall>w'. writeChecksums e w m = Inr w' \<longrightarrow>
            manifest w' = Some (concat (map (manifestLine m) (sortedPaths m)))) \<and>
         sorted_wrt (<) (sortedPaths m) \<and>
         distinct (sortedPaths m) \<and>
         set (sortedPaths m) = fst ` set m \<and>
         (\<forall>p \<in> set (sortedPaths m). \<exists>c. map_of m p = Some c \<and>
            manifestLine m p = c @ ''  '' @ p @ [CHR 0x0A])"
proof -
  have a: "\<forall>w'. writeChecksums e w m = Inr w' \<longrightarrow>
            manifest w' = Some (concat (map (manifestLine m) (sortedPaths m)))"
    by (auto simp: writeChecksums_def manifestText_def split: if_splits)
  have d: "distinct (sortedPaths m)"
    using assms by (simp add: sortedPaths_def)
  have "sorted (sortedPaths m)"
    by (simp add: sortedPaths_def)
  with d have b: "sorted_wrt (<) (sortedPaths m)"
    by (simp add: strict_sorted_iff)
  have c: "set (sortedPaths m) = fst ` set m"
    by (rule set_sortedPaths)
  have l: "\<forall>p \<in> set (sortedPaths m). \<exists>c. map_of m p = Some c \<and>
            manifestLine m p = c @ ''  '' @ p @ [CHR 0x0A]"
  proof
    fix p assume "p \<in> set (sortedPaths m)"
    then have "p \<in> fst ` set m" by (simp add: set_sortedPaths)
    from map_of_key [OF this] obtain c where "map_of m p = Some c" ..
    then show "\<exists>c. map_of m p = Some c \<and> manifestLine m p = c @ ''  '' @ p @ [CHR 0x0A]"
      by (simp add: manifestLine_def index_def)
  qed
  from a b d c l show ?thesis
    by (intro conjI)
qed

theorem saved_manifest_sorted_witness:
  "distinct (map fst someEntries) \<and>
   writeChecksums env1 world0 someEntries =
     Inr \<lparr>manifest = Some (''49f68a5c8493ec2c0bf489821c21fc3b  B.txt'' @ [CHR 0x0A] @
                           ''d41d8cd98f00b204e9800998ecf8427e  a.txt'' @ [CHR 0x0A] @
                           ''49f68a5c8493ec2c0bf489821c21fc3b  b.txt'' @ [CHR 0x0A]),
          marker = None\<rparr> \<and>
   sortedPaths someEntries = [''B.txt'', ''a.txt'', ''b.txt''] \<and>
   sorted_wrt (<) (sortedPaths someEntries)"
proof -
  have d: "distinct (map fst someEntries)"
    by code_simp
  have w: "writeChecksums env1 world0 someEntries =
     Inr \<lparr>manifest = Some (''49f68a5c8493ec2c0bf489821c21fc3b  B.txt'' @ [CHR 0x0A] @
                           ''d41d8cd98f00b204e9800998ecf8427e  a.txt'' @ [CHR 0x0A] @
                           ''49f68a5c8493ec2c0bf489821c21fc3b  b.txt'' @ [CHR 0x0A]),
          marker = None\<rparr>"
    by code_simp
  have s: "sortedPaths someEntries = [''B.txt'', ''a.txt'', ''b.txt'']"
    by code_simp
  from saved_manifest_sorted [OF d, of env1 world0] d w s show ?thesis
    by blast
qed



text \<open>
  Claim C1, as stated, fails: a stale file on which \<^verbatim>\<open>fileMD5\<close> fails leaves the callback
  at line 81, before line 89 sets \<^verbatim>\<open>neededUpdate\<close>. In the run below the only file is
  stale and unreadable; \<^verbatim>\<open>neededUpdate\<close> stays false and the marker is not rewritten.
\<close>

theorem stale_unhashable_no_marker_update:
  "File fileLocked \<in> set (walk envLocked) \<and>
   needsUpdate (readChecksums (manifest world0)) (getLastRunTime world0) ''locked.bin'' fileLocked \<and>
   CallFileMD5 ''locked.bin'' \<in> set (trace (traverse envLocked world0)) \<and>
   \<not> neededUpdate (traverse envLocked world0) \<and>
   main envLocked world0 = Inr (world0, scanLocked) \<and>
   marker world0 = None"
  by code_simp

text \<open>
  Claim C1, amended. For every scan in which at least one visited file is determined
  stale and is hashed successfully, \<^verbatim>\<open>neededUpdate\<close> is set, whether or not the checksum
  differed; every run that returns then leaves the marker at the current instant,
  also when no manifest write is triggered, and the run does return when the checks
  at its start pass and writing and touching succeed.
\<close>

theorem evaluated_file_updates_marker:
  assumes "File f \<in> set (walk e)"
    and "relPath f = Some rel"
    and "\<not> HasSuffix rel MD5TimestampFile"
    and "needsUpdate (readChecksums (manifest w)) (getLastRunTime w) rel f"
    and "md5sum f \<noteq> None"
  shows "neededUpdate (traverse e w) \<and>
         (\<forall>w' s'. main e w = Inr (w', s') \<longrightarrow> marker w' = Some (now e)) \<and>
         (dirAbs e \<and> dirExists e \<and> outputAbs e \<and> canWrite e \<and> canTouch e \<longrightarrow>
            (\<exists>w' s'. main e w = Inr (w', s')))"
proof -
  have "evaluated (readChecksums (manifest w)) (getLastRunTime w) (File f)"
    using assms by (simp add: evaluated_def hashes_def)
  with assms(1) have n: "neededUpdate (traverse e w)"
    by (auto simp: neededUpdate_traverse)
  have m: "\<forall>w' s'. main e w = Inr (w', s') \<longrightarrow> marker w' = Some (now e)"
    using n by (auto dest!: main_Inr dest: neededUpdate_finish)
  have r: "dirAbs e \<and> dirExists e \<and> outputAbs e \<and> canWrite e \<and> canTouch e \<longrightarrow>
            (\<exists>w' s'. main e w = Inr (w', s'))"
    using finish_returns [of e w "traverse e w"] by (simp add: main_def)
  from n m r show ?thesis by (intro conjI)
qed

theorem evaluated_file_updates_marker_witness:
  "File fileTouched \<in> set (walk env2) \<and>
   relPath fileTouched = Some ''a.txt'' \<and>
   \<not> HasSuffix ''a.txt'' MD5TimestampFile \<and>
   needsUpdate (readChecksums (manifest world1)) (getLastRunTime world1) ''a.txt'' fileTouched \<and>
   md5sum fileTouched \<noteq> None \<and>
   neededUpdate (traverse env2 world1) \<and>
   main env2 world1 = Inr (world2, scan2) \<and>
   CallWriteChecksums \<notin> set (trace scan2) \<and>
   marker world2 = Some (now env2)"
proof -
  have h1: "File fileTouched \<in> set (walk env2)" by code_simp
  have h2: "relPath fileTouched = Some ''a.txt''" by code_simp
  have h3: "\<not> HasSuffix ''a.txt'' MD5TimestampFile" by code_simp
  have h4: "needsUpdate (readChecksums (manifest world1)) (getLastRunTime world1)
              ''a.txt'' fileTouched" by code_simp
  have h5: "md5sum fileTouched \<noteq> None" by code_simp
  have m: "main env2 world1 = Inr (world2, scan2)" by code_simp
  have t: "CallWriteChecksums \<notin> set (trace scan2)" by code_simp
  from evaluated_file_updates_marker [OF h1 h2 h3 h4 h5] m
  have "neededUpdate (traverse env2 world1)" "marker world2 = Some (now env2)"
    by blast+
  with h1 h2 h3 h4 h5 m t show ?thesis by (intro conjI)
qed

text \<open>
  Claim C4, as stated, fails on the marker file: it is a visited regular file, its
  path is not a key of the existing manifest, and line 71 skips it before the
  staleness test, so it is neither hashed nor added.
\<close>

theorem marker_file_not_hashed:
  "File fileMarker \<in> set (walk envMarker) \<and>
   relPath fileMarker = Some ''.md5sum-timestamp'' \<and>
   \<not> fileExistsInChecksums ''.md5sum-timestamp'' (readChecksums (manifest world1)) \<and>
   md5sum fileMarker \<noteq> None \<and>
   CallFileMD5 ''.md5sum-timestamp'' \<notin> set (trace (traverse envMarker world1)) \<and>
   \<not> fileExistsInChecksums ''.md5sum-timestamp'' (newChecksums (traverse envMarker world1))"
  by code_simp

text \<open>
  Claim C4, amended. Every visited regular file whose relative path does not end with
  the marker filename and is not a key of the existing manifest is determined stale,
  whatever its modification time, and is hashed; when hashing succeeds the callback
  stores its checksum under its path, and the path is a key of the working manifest
  at the end of the traversal.
\<close>

theorem new_file_hashed_and_added:
  assumes "File f \<in> set (walk e)"
    and "relPath f = Some rel"
    and "\<not> HasSuffix rel MD5TimestampFile"
    and "\<not> fileExistsInChecksums rel (readChecksums (manifest w))"
  shows "needsUpdate (readChecksums (manifest w)) (getLastRunTime w) rel f \<and>
         CallFileMD5 rel \<in> set (trace (traverse e w)) \<and>
         (\<forall>d. md5sum f = Some d \<longrightarrow>
            map_of (newChecksums
              (walkFn (readChecksums (manifest w)) (getLastRunTime w) (File f) s)) rel =
              Some (EncodeToString (digestBytes d)) \<and>
            fileExistsInChecksums rel (newChecksums (traverse e w)))"
proof -
  let ?ex = "readChecksums (manifest w)" and ?lr = "getLastRunTime w"
  have stale: "needsUpdate ?ex ?lr rel f"
    using assms(4) by (simp add: needsUpdate_def)
  with assms have "hashes ?ex ?lr (File f) = Some (rel, f)"
    by (simp add: hashes_File)
  with assms(1) have hashed: "CallFileMD5 rel \<in> set (trace (traverse e w))"
    by (auto simp: hashed_traverse)
  have added: "\<forall>d. md5sum f = Some d \<longrightarrow>
            map_of (newChecksums (walkFn ?ex ?lr (File f) s)) rel =
              Some (EncodeToString (digestBytes d)) \<and>
            fileExistsInChecksums rel (newChecksums (traverse e w))"
  proof (intro allI impI)
    fix d assume d: "md5sum f = Some d"
    note st = stores_new_file [OF assms(2) assms(3) assms(4) d, of ?lr]
    have step: "map_of (newChecksums (walkFn ?ex ?lr (File f) s)) rel =
              Some (EncodeToString (digestBytes d))"
      by (simp add: newChecksums_walkFn st update_conv')
    from st assms(1)
    have "(rel, EncodeToString (digestBytes d)) \<in>
            set (List.map_filter (stores ?ex ?lr) (walk e))"
      by (auto simp: set_map_filter)
    then have "rel \<in> fst ` set (List.map_filter (stores ?ex ?lr) (walk e))"
      by force
    then have "fileExistsInChecksums rel (newChecksums (traverse e w))"
      by (simp add: fileExists_iff newChecksums_traverse keys_storeAll)
    with step show "map_of (newChecksums (walkFn ?ex ?lr (File f) s)) rel =
              Some (EncodeToString (digestBytes d)) \<and>
            fileExistsInChecksums rel (newChecksums (traverse e w))"
      by simp
  qed
  from stale hashed added show ?thesis by (intro conjI)
qed

theorem new_file_hashed_and_added_witness:
  "File fileB \<in> set (walk env3) \<and>
   relPath fileB = Some ''b.txt'' \<and>
   \<not> HasSuffix ''b.txt'' MD5TimestampFile \<and>
   \<not> fileExistsInChecksums ''b.txt'' (readChecksums (manifest world1)) \<and>
   md5sum fileB = Some 0xd41d8cd98f00b204e9800998ecf8427e \<and>
   CallFileMD5 ''b.txt'' \<in> set (trace (traverse env3 world1)) \<and>
   fileExistsInChecksums ''b.txt'' (newChecksums (traverse env3 world1)) \<and>
   newChecksums (traverse env3 world1) =
     [(''a.txt'', ''49f68a5c8493ec2c0bf489821c21fc3b''),
      (''b.txt'', ''d41d8cd98f00b204e9800998ecf8427e'')]"
proof -
  have h1: "File fileB \<in> set (walk env3)" by code_simp
  have h2: "relPath fileB = Some ''b.txt''" by code_simp
  have h3: "\<not> HasSuffix ''b.txt'' MD5TimestampFile" by code_simp
  have h4: "\<not> fileExistsInChecksums ''b.txt'' (readChecksums (manifest world1))" by code_simp
  have h5: "md5sum fileB = Some 0xd41d8cd98f00b204e9800998ecf8427e" by code_simp
  have n: "newChecksums (traverse env3 world1) =
     [(''a.txt'', ''49f68a5c8493ec2c0bf489821c21fc3b''),
      (''b.txt'', ''d41d8cd98f00b204e9800998ecf8427e'')]" by code_simp
  from new_file_hashed_and_added [OF h1 h2 h3 h4] h5
  have "CallFileMD5 ''b.txt'' \<in> set (trace (traverse env3 world1))"
    "fileExistsInChecksums ''b.txt'' (newChecksums (traverse env3 world1))"
    by blast+
  with h1 h2 h3 h4 h5 n show ?thesis by (intro conjI)
qed

text \<open>
  Claim C8, as stated, fails in its last part: \<^verbatim>\<open>readChecksums\<close> does not filter the
  marker filename, and the working manifest starts as a copy of what it loads. Below,
  the prior manifest has an entry for the marker file, a new file triggers a write,
  and the saved manifest holds the marker filename as a key.
\<close>

theorem marker_key_saved_from_existing:
  "fileExistsInChecksums MD5TimestampFile (readChecksums (manifest worldM)) \<and>
   MD5TimestampFile \<in> set (sortedPaths (newChecksums (traverse env1 worldM))) \<and>
   map_sum id (\<lambda>r. manifest (fst r)) (main env1 worldM) =
     Inr (Some (''d41d8cd98f00b204e9800998ecf8427e  .md5sum-timestamp'' @ [CHR 0x0A] @
                ''49f68a5c8493ec2c0bf489821c21fc3b  a.txt'' @ [CHR 0x0A]))"
  by code_simp

text \<open>
  Claim C8, amended. A relative path that ends with the marker filename is skipped
  during traversal: it is never hashed, and the entry of the working manifest for it
  is what the existing manifest had, so the traversal never inserts it. As a result,
  when such a path is not a key of the loaded manifest, it is not among the paths of
  the saved manifest.
\<close>

theorem marker_never_hashed_or_inserted:
  assumes "HasSuffix rel MD5TimestampFile"
  shows "CallFileMD5 rel \<notin> set (trace (traverse e w)) \<and>
         (\<forall>w' s'. main e w = Inr (w', s') \<longrightarrow> CallFileMD5 rel \<notin> set (trace s')) \<and>
         map_of (newChecksums (traverse e w)) rel = map_of (readChecksums (manifest w)) rel \<and>
         (\<not> fileExistsInChecksums rel (readChecksums (manifest w)) \<longrightarrow>
            rel \<notin> set (sortedPaths (newChecksums (traverse e w))))"
proof -
  let ?ex = "readChecksums (manifest w)" and ?lr = "getLastRunTime w"
  have nohash: "\<And>v f. hashes ?ex ?lr v \<noteq> Some (rel, f)"
    using assms by (auto dest: hashes_SomeD)
  then have a: "CallFileMD5 rel \<notin> set (trace (traverse e w))"
    by (simp add: hashed_traverse)
  then have b: "\<forall>w' s'. main e w = Inr (w', s') \<longrightarrow> CallFileMD5 rel \<notin> set (trace s')"
    by (auto dest!: main_Inr simp: hashed_finish)
  have "rel \<notin> fst ` set (List.map_filter (stores ?ex ?lr) (walk e))"
    using nohash by (auto simp: set_map_filter dest: stores_key)
  then have c: "map_of (newChecksums (traverse e w)) rel = map_of ?ex rel"
    by (simp add: newChecksums_traverse map_of_storeAll_other)
  have d: "\<not> fileExistsInChecksums rel ?ex \<longrightarrow>
            rel \<notin> set (sortedPaths (newChecksums (traverse e w)))"
    using c map_of_eq_None_iff [of "newChecksums (traverse e w)" rel]
    by (simp add: fileExistsInChecksums_def set_sortedPaths)
  from a b c d show ?thesis by (intro conjI)
qed

theorem marker_never_hashed_or_inserted_witness:
  "HasSuffix ''.md5sum-timestamp'' MD5TimestampFile \<and>
   File fileMarker \<in> set (walk envMarker) \<and>
   relPath fileMarker = Some ''.md5sum-timestamp'' \<and>
   \<not> fileExistsInChecksums ''.md5sum-timestamp'' (readChecksums (manifest world1)) \<and>
   CallFileMD5 ''.md5sum-timestamp'' \<notin> set (trace (traverse envMarker world1)) \<and>
   ''.md5sum-timestamp'' \<notin> set (sortedPaths (newChecksums (traverse envMarker world1)))"
proof -
  have h: "HasSuffix ''.md5sum-timestamp'' MD5TimestampFile" by code_simp
  have v: "File fileMarker \<in> set (walk envMarker)" by code_simp
  have r: "relPath fileMarker = Some ''.md5sum-timestamp''" by code_simp
  have n: "\<not> fileExistsInChecksums ''.md5sum-timestamp'' (readChecksums (manifest world1))"
    by code_simp
  from marker_never_hashed_or_inserted [OF h, of envMarker world1] n
  have "CallFileMD5 ''.md5sum-timestamp'' \<notin> set (trace (traverse envMarker world1))"
    "''.md5sum-timestamp'' \<notin> set (sortedPaths (newChecksums (traverse envMarker world1)))"
    by blast+
  with h v r n show ?thesis by (intro conjI)
qed




end
